theory Spec2Isabelle
  imports Main "HOL-Library.Word"
begin

unbundle bit_operations_syntax

section \<open>The I/O binding layer of wasa.ts\<close>

text \<open>
  The module \<^verbatim>\<open>src/assembly/wasa.ts\<close> stages data in linear memory, builds I/O vector
  lists there and calls the host's \<^verbatim>\<open>fd_write\<close> / \<^verbatim>\<open>fd_read\<close>. The embedding keeps
  the linear memory byte by byte, the allocator calls and the host calls in an explicit
  world state that every operation takes and returns.
\<close>

subsection \<open>Machine types and linear memory\<close>

type_synonym u8 = "8 word"
type_synonym u32 = "32 word"
type_synonym usize = "32 word"
type_synonym address = nat
type_synonym Descriptor = "32 word"
type_synonym memory = "address \<Rightarrow> u8"

text \<open>
  An address is a natural number and memory maps every address to a byte. A pointer
  that is stored in memory is cut to 32 bits, as \<^verbatim>\<open>store<u32>\<close> does; the properties
  that depend on reading a pointer back say that the regions lie below \<open>2 ^ 32\<close>.
\<close>

text \<open>\<^verbatim>\<open>sizeof<usize>()\<close> on the 32-bit target.\<close>

definition sizeof_usize :: nat where
  "sizeof_usize = 4"

text \<open>\<^verbatim>\<open>store<u32>\<close> and \<^verbatim>\<open>load<u32>\<close> / \<^verbatim>\<open>load<usize>\<close>: four bytes, little endian.\<close>

definition store_u32 :: "memory \<Rightarrow> address \<Rightarrow> u32 \<Rightarrow> memory" where
  "store_u32 m a v =
     m(a := ucast v,
       a + 1 := ucast (drop_bit 8 v),
       a + 2 := ucast (drop_bit 16 v),
       a + 3 := ucast (drop_bit 24 v))"

definition load_u32 :: "memory \<Rightarrow> address \<Rightarrow> u32" where
  "load_u32 m a =
     ucast (m a) OR push_bit 8 (ucast (m (a + 1)))
       OR push_bit 16 (ucast (m (a + 2))) OR push_bit 24 (ucast (m (a + 3)))"

text \<open>
  The copy loops \<^verbatim>\<open>for (i = 0; i < len; i++) store<u8>(buf + i, data[i])\<close> and
  \<^verbatim>\<open>for (i = 0; i < read; i++) data.push(load<u8>(buf + i))\<close>, one step per byte.
\<close>

fun store_bytes :: "memory \<Rightarrow> address \<Rightarrow> u8 list \<Rightarrow> memory" where
  "store_bytes m a [] = m"
| "store_bytes m a (b # bs) = store_bytes (m(a := b)) (a + 1) bs"

fun load_bytes :: "memory \<Rightarrow> address \<Rightarrow> nat \<Rightarrow> u8 list" where
  "load_bytes m a 0 = []"
| "load_bytes m a (Suc n) = m a # load_bytes m (a + 1) n"

subsection \<open>The world: memory, allocator and host\<close>

datatype errno = SUCCESS | FAILURE nat

text \<open>
  What the host has in store for the reads of one descriptor: a chunk of bytes that is
  ready to be read, or a read that fails. The empty list is the end of the stream.
\<close>

datatype read_event = Chunk "u8 list" | Fail nat

text \<open>
  The host calls as they were made: the decoded I/O vector list (address and length of
  every entry) and the bytes transferred.
\<close>

datatype syscall =
    Sys_close Descriptor
  | Sys_write Descriptor "(address \<times> nat) list" "u8 list"
  | Sys_read Descriptor "(address \<times> nat) list" errno "u8 list"

record world =
  mem :: memory
  brk :: address
  allocs :: "(address \<times> nat) list"
  frees :: "address list"
  input :: "Descriptor \<Rightarrow> read_event list"
  calls :: "syscall list"

text \<open>
  Modelled from the spec: the allocation service \<^verbatim>\<open>allocate(size) -> address\<close>,
  \<^verbatim>\<open>free(address)\<close> of section 1; the allocator that \<^verbatim>\<open>import "allocator/arena"\<close>
  brings in is not among the sources. Every call hands out a new address, the regions
  never overlap (a request of size zero still gets an address of its own), and each
  request and each release is recorded in the order it was made.
\<close>

definition allocate :: "world \<Rightarrow> nat \<Rightarrow> world \<times> address" where
  "allocate w n =
     (w\<lparr>brk := brk w + max n 1, allocs := allocs w @ [(brk w, n)]\<rparr>, brk w)"

definition free :: "world \<Rightarrow> address \<Rightarrow> world" where
  "free w p = w\<lparr>frees := frees w @ [p]\<rparr>"

definition store32 :: "world \<Rightarrow> address \<Rightarrow> u32 \<Rightarrow> world" where
  "store32 w a v = w\<lparr>mem := store_u32 (mem w) a v\<rparr>"

definition store8 :: "world \<Rightarrow> address \<Rightarrow> u8 \<Rightarrow> world" where
  "store8 w a v = w\<lparr>mem := (mem w)(a := v)\<rparr>"

text \<open>
  Modelled from the spec: the host primitives of section 6,
  \<^verbatim>\<open>write(descriptor, vectorList) -> (status, bytesWritten)\<close>,
  \<^verbatim>\<open>read(descriptor, vectorList) -> (status, bytesRead)\<close> and
  \<^verbatim>\<open>close(descriptor) -> status\<close>; the bindings \<^verbatim>\<open>bindings/wasi\<close> are not among the
  sources. The host decodes the vector list from linear memory: entry \<open>k\<close> is the pair
  of 32-bit values at \<open>iov + 8 * k\<close> and \<open>iov + 8 * k + 4\<close>.
\<close>

fun load_iovs :: "memory \<Rightarrow> address \<Rightarrow> nat \<Rightarrow> (address \<times> nat) list" where
  "load_iovs m iov 0 = []"
| "load_iovs m iov (Suc k) =
     (unat (load_u32 m iov), unat (load_u32 m (iov + 4))) # load_iovs m (iov + 8) k"

fun gather :: "memory \<Rightarrow> (address \<times> nat) list \<Rightarrow> u8 list" where
  "gather m [] = []"
| "gather m ((p, n) # iovs) = load_bytes m p n @ gather m iovs"

fun scatter :: "memory \<Rightarrow> (address \<times> nat) list \<Rightarrow> u8 list \<Rightarrow> memory" where
  "scatter m [] bs = m"
| "scatter m ((p, n) # iovs) bs = scatter (store_bytes m p (take n bs)) iovs (drop n bs)"

text \<open>
  A write takes the whole vector (the layer assumes so, section 4.2), stores the count
  at \<open>nwritten\<close> and succeeds.
\<close>

definition fd_write :: "world \<Rightarrow> Descriptor \<Rightarrow> address \<Rightarrow> nat \<Rightarrow> address \<Rightarrow> world \<times> errno" where
  "fd_write w fd iov iovs_len nwritten =
     (let iovs = load_iovs (mem w) iov iovs_len;
          bs = gather (mem w) iovs
      in (w\<lparr>mem := store_u32 (mem w) nwritten (of_nat (length bs)),
            calls := calls w @ [Sys_write fd iovs bs]\<rparr>, SUCCESS))"

text \<open>
  A read at the end of the stream succeeds with a count of zero. A failing read changes
  no memory and reports its status. Otherwise the host moves as many bytes of the
  chunk at the head of the stream as the vector has room for, and stores their number at
  \<open>nread\<close> last.
\<close>

definition fd_read :: "world \<Rightarrow> Descriptor \<Rightarrow> address \<Rightarrow> nat \<Rightarrow> address \<Rightarrow> world \<times> errno" where
  "fd_read w fd iov iovs_len nread =
     (let iovs = load_iovs (mem w) iov iovs_len in
      case input w fd of
        [] \<Rightarrow>
          (w\<lparr>mem := store_u32 (mem w) nread 0,
             calls := calls w @ [Sys_read fd iovs SUCCESS []]\<rparr>, SUCCESS)
      | Fail e # rest \<Rightarrow>
          (w\<lparr>input := (input w)(fd := rest),
             calls := calls w @ [Sys_read fd iovs (FAILURE e) []]\<rparr>, FAILURE e)
      | Chunk bs # rest \<Rightarrow>
          (let n = min (sum_list (map snd iovs)) (length bs);
               left = drop n bs
           in (w\<lparr>mem := store_u32 (scatter (mem w) iovs (take n bs)) nread (of_nat n),
                 input := (input w)(fd := (if left = [] then rest else Chunk left # rest)),
                 calls := calls w @ [Sys_read fd iovs SUCCESS (take n bs)]\<rparr>, SUCCESS)))"

definition fd_close :: "world \<Rightarrow> Descriptor \<Rightarrow> world \<times> errno" where
  "fd_close w fd = (w\<lparr>calls := calls w @ [Sys_close fd]\<rparr>, SUCCESS)"

text \<open>The bytes that the write calls made so far have sent to a descriptor.\<close>

fun written :: "syscall list \<Rightarrow> Descriptor \<Rightarrow> u8 list" where
  "written [] fd = []"
| "written (Sys_write fd' iovs bs # cs) fd = (if fd' = fd then bs else []) @ written cs fd"
| "written (c # cs) fd = written cs fd"

definition emitted :: "world \<Rightarrow> Descriptor \<Rightarrow> u8 list" where
  "emitted w fd = written (calls w) fd"

subsection \<open>Text\<close>

text \<open>
  Modelled from the spec: text is a sequence of Unicode characters, exchanged as UTF-8
  (section 3); the string conversions \<^verbatim>\<open>lengthUTF8\<close>, \<^verbatim>\<open>toUTF8\<close> and
  \<^verbatim>\<open>String.fromUTF8\<close> belong to the language's library, which is not among the sources.
  A character is its code point. \<^verbatim>\<open>lengthUTF8\<close> counts the terminating zero byte that
  \<^verbatim>\<open>toUTF8\<close> writes after the encoding, which is why the layer subtracts one.
\<close>

type_synonym ustring = "nat list"

definition utf8_char :: "nat \<Rightarrow> u8 list" where
  "utf8_char c =
     (if c < 0x80 then [of_nat c]
      else if c < 0x800 then [of_nat (0xC0 + c div 64), of_nat (0x80 + c mod 64)]
      else if c < 0x10000 then
        [of_nat (0xE0 + c div 4096), of_nat (0x80 + c div 64 mod 64), of_nat (0x80 + c mod 64)]
      else
        [of_nat (0xF0 + c div 262144), of_nat (0x80 + c div 4096 mod 64),
         of_nat (0x80 + c div 64 mod 64), of_nat (0x80 + c mod 64)])"

fun utf8 :: "ustring \<Rightarrow> u8 list" where
  "utf8 [] = []"
| "utf8 (c # cs) = utf8_char c @ utf8 cs"

fun utf8_decode :: "u8 list \<Rightarrow> ustring" where
  "utf8_decode [] = []"
| "utf8_decode (b # bs) =
     (if unat b < 0x80 then unat b # utf8_decode bs
      else if unat b < 0xE0 then
        (case bs of
           b1 # r \<Rightarrow> ((unat b mod 32) * 64 + unat b1 mod 64) # utf8_decode r
         | _ \<Rightarrow> [])
      else if unat b < 0xF0 then
        (case bs of
           b1 # b2 # r \<Rightarrow>
             ((unat b mod 16) * 4096 + (unat b1 mod 64) * 64 + unat b2 mod 64) # utf8_decode r
         | _ \<Rightarrow> [])
      else
        (case bs of
           b1 # b2 # b3 # r \<Rightarrow>
             ((unat b mod 8) * 262144 + (unat b1 mod 64) * 4096 + (unat b2 mod 64) * 64
                + unat b3 mod 64) # utf8_decode r
         | _ \<Rightarrow> []))"

definition lengthUTF8 :: "ustring \<Rightarrow> nat" where
  "lengthUTF8 s = length (utf8 s) + 1"

definition toUTF8 :: "world \<Rightarrow> ustring \<Rightarrow> world \<times> address" where
  "toUTF8 w s =
     (let (w, buf) = allocate w (lengthUTF8 s);
          w = w\<lparr>mem := store_bytes (mem w) buf (utf8 s @ [0])\<rparr>
      in (w, buf))"

definition fromUTF8 :: "world \<Rightarrow> address \<Rightarrow> nat \<Rightarrow> ustring" where
  "fromUTF8 w ptr len = utf8_decode (load_bytes (mem w) ptr len)"

subsection \<open>IO\<close>

text \<open>
  The static methods of the classes \<^verbatim>\<open>IO\<close> and \<^verbatim>\<open>Console\<close> carry the class name as a
  prefix. A method that returns nothing returns the world it leaves.
\<close>

definition IO_close :: "world \<Rightarrow> Descriptor \<Rightarrow> world" where
  "IO_close w fd = fst (fd_close w fd)"

definition IO_write :: "world \<Rightarrow> Descriptor \<Rightarrow> u8 list \<Rightarrow> world" where
  "IO_write w fd data =
     (let data_buf_len = length data;
          (w, data_buf) = allocate w data_buf_len;
          w = w\<lparr>mem := store_bytes (mem w) data_buf data\<rparr>;
          (w, iov) = allocate w (2 * sizeof_usize);
          w = store32 w iov (of_nat data_buf);
          w = store32 w (iov + sizeof_usize) (of_nat data_buf_len);
          (w, written_ptr) = allocate w sizeof_usize;
          (w, _) = fd_write w fd iov 1 written_ptr;
          w = free w written_ptr;
          w = free w data_buf
      in w)"

definition IO_writeStringLn :: "world \<Rightarrow> Descriptor \<Rightarrow> ustring \<Rightarrow> world" where
  "IO_writeStringLn w fd s =
     (let s_utf8_len = lengthUTF8 s - 1;
          (w, s_utf8) = toUTF8 w s;
          (w, iov) = allocate w (4 * sizeof_usize);
          w = store32 w iov (of_nat s_utf8);
          w = store32 w (iov + sizeof_usize) (of_nat s_utf8_len);
          (w, lf) = allocate w 1;
          w = store8 w lf 10;
          w = store32 w (iov + sizeof_usize * 2) (of_nat lf);
          w = store32 w (iov + sizeof_usize * 3) 1;
          (w, written_ptr) = allocate w sizeof_usize;
          (w, _) = fd_write w fd iov 2 written_ptr;
          w = free w written_ptr;
          w = free w s_utf8
      in w)"

definition IO_writeString :: "world \<Rightarrow> Descriptor \<Rightarrow> ustring \<Rightarrow> bool \<Rightarrow> world" where
  "IO_writeString w fd s newline =
     (if newline then IO_writeStringLn w fd s
      else
        (let s_utf8_len = lengthUTF8 s - 1;
             (w, s_utf8) = toUTF8 w s;
             (w, iov) = allocate w (2 * sizeof_usize);
             w = store32 w iov (of_nat s_utf8);
             w = store32 w (iov + sizeof_usize) (of_nat s_utf8_len);
             (w, written_ptr) = allocate w sizeof_usize;
             (w, _) = fd_write w fd iov 1 written_ptr;
             w = free w written_ptr;
             w = free w s_utf8
         in w))"

text \<open>
  \<^verbatim>\<open>IO.read\<close> returns the array or \<^verbatim>\<open>null\<close>. The array is the caller's object and
  \<^verbatim>\<open>push\<close> changes it in place, so the model returns its final content next to the
  returned value (\<open>None\<close> is \<^verbatim>\<open>null\<close>). The comparisons \<^verbatim>\<open>read > 0\<close>,
  \<^verbatim>\<open>read <= 0\<close> and \<^verbatim>\<open>read < 0\<close> are those of the unsigned 32-bit type.
\<close>

definition IO_read ::
  "world \<Rightarrow> Descriptor \<Rightarrow> u8 list \<Rightarrow> usize \<Rightarrow> world \<times> u8 list \<times> u8 list option" where
  "IO_read w fd data chunk_size =
     (let data_partial_len = chunk_size;
          (w, data_partial) = allocate w (unat data_partial_len);
          (w, iov) = allocate w (2 * sizeof_usize);
          w = store32 w iov (of_nat data_partial);
          w = store32 w (iov + sizeof_usize) data_partial_len;
          (w, read_ptr) = allocate w sizeof_usize;
          (w, _) = fd_read w fd iov 1 read_ptr;
          read = load_u32 (mem w) read_ptr;
          data = (if read > 0 then data @ load_bytes (mem w) data_partial (unat read) else data);
          w = free w read_ptr;
          w = free w data_partial
      in if read \<le> 0 then (w, data, None) else (w, data, Some data))"

text \<open>
  The loop \<^verbatim>\<open>for (;;)\<close> of \<^verbatim>\<open>IO.readAll\<close>: it returns the world, the array and the
  last count loaded. It ends because every round that continues has taken at least one
  byte from the stream, which is finite.
\<close>

fun event_size :: "read_event \<Rightarrow> nat" where
  "event_size (Chunk bs) = Suc (length bs)"
| "event_size (Fail e) = 1"

function readAll_loop ::
  "world \<Rightarrow> Descriptor \<Rightarrow> address \<Rightarrow> address \<Rightarrow> address \<Rightarrow> u8 list \<Rightarrow> usize
     \<Rightarrow> world \<times> u8 list \<times> usize" where
  "readAll_loop w fd iov read_ptr data_partial data read =
     (case fd_read w fd iov 1 read_ptr of
        (w', status) \<Rightarrow>
          if status \<noteq> SUCCESS then (w', data, read)
          else
            (let read' = load_u32 (mem w') read_ptr in
             if read' \<le> 0 then (w', data, read')
             else readAll_loop w' fd iov read_ptr data_partial
                    (data @ load_bytes (mem w') data_partial (unat read')) read'))"
  by pat_completeness auto
termination
proof (relation "measure (\<lambda>(w, fd, iov, read_ptr, data_partial, data, read).
                    sum_list (map event_size (input w fd)))")
  show "wf (measure (\<lambda>(w, fd, iov, read_ptr, data_partial, data, read).
                    sum_list (map event_size (input w fd))))"
    by simp
next
  fix w fd iov read_ptr data_partial data read x w' status read'
  assume a: "(w', status) = fd_read w fd iov 1 read_ptr" "\<not> status \<noteq> SUCCESS"
    "read' = load_u32 (mem w') read_ptr" "\<not> read' \<le> 0"
  have ls: "load_u32 (store_u32 m p v) p = v" for m p v
    unfolding load_u32_def store_u32_def
    apply simp
    apply (rule bit_word_eqI)
    apply (auto simp add: bit_simps not_less)
    subgoal for n by (cases "n < 24") (auto simp: not_less)
    done
  have st: "status = SUCCESS" using a(2) by simp
  show "((w', fd, iov, read_ptr, data_partial,
          data @ load_bytes (mem w') data_partial (unat read'), read'),
         (w, fd, iov, read_ptr, data_partial, data, read))
        \<in> measure (\<lambda>(w, fd, iov, read_ptr, data_partial, data, read).
                    sum_list (map event_size (input w fd)))"
  proof (cases "input w fd")
    case Nil
    with a(1) have "mem w' = store_u32 (mem w) read_ptr 0"
      by (simp add: fd_read_def Let_def)
    with a(3,4) show ?thesis by (simp add: ls)
  next
    case (Cons e rest)
    show ?thesis
    proof (cases e)
      case (Fail k)
      with Cons a(1) st show ?thesis by (simp add: fd_read_def Let_def)
    next
      case (Chunk bs)
      define n where "n = min (sum_list (map snd (load_iovs (mem w) iov 1))) (length bs)"
      from Chunk Cons a(1) have m: "load_u32 (mem w') read_ptr = of_nat n"
        and i: "input w' fd = (if drop n bs = [] then rest else Chunk (drop n bs) # rest)"
        by (simp_all add: fd_read_def Let_def n_def ls)
      from m a(3,4) have "0 < n" by (cases n) auto
      moreover have "n \<le> length bs" by (simp add: n_def)
      ultimately show ?thesis using i Cons Chunk by auto
    qed
  qed
qed

definition IO_readAll ::
  "world \<Rightarrow> Descriptor \<Rightarrow> u8 list \<Rightarrow> usize \<Rightarrow> world \<times> u8 list \<times> u8 list option" where
  "IO_readAll w fd data chunk_size =
     (let data_partial_len = chunk_size;
          (w, data_partial) = allocate w (unat data_partial_len);
          (w, iov) = allocate w (2 * sizeof_usize);
          w = store32 w iov (of_nat data_partial);
          w = store32 w (iov + sizeof_usize) data_partial_len;
          (w, read_ptr) = allocate w sizeof_usize;
          read = (0 :: usize);
          (w, data, read) = readAll_loop w fd iov read_ptr data_partial data read;
          w = free w read_ptr;
          w = free w data_partial
      in if read < 0 then (w, data, None) else (w, data, Some data))"

text \<open>
  \<^verbatim>\<open>IO.readString\<close> calls \<^verbatim>\<open>IO.readAll(fd)\<close> with the defaults of that function: a new
  empty array and a chunk size of 4096; its own \<^verbatim>\<open>chunk_size\<close> is not passed on.
\<close>

definition IO_readString :: "world \<Rightarrow> Descriptor \<Rightarrow> usize \<Rightarrow> world \<times> ustring option" where
  "IO_readString w fd chunk_size =
     (let (w, _, s_utf8_or_null) = IO_readAll w fd [] 4096 in
      case s_utf8_or_null of
        None \<Rightarrow> (w, None)
      | Some s_utf8 \<Rightarrow>
          (let s_utf8_len = length s_utf8;
               (w, s_utf8_buf) = allocate w s_utf8_len;
               w = w\<lparr>mem := store_bytes (mem w) s_utf8_buf s_utf8\<rparr>;
               s = fromUTF8 w s_utf8_buf (length s_utf8);
               w = free w s_utf8_buf
           in (w, Some s)))"

subsection \<open>Console\<close>

text \<open>
  An optional argument is an \<open>option\<close>: \<open>None\<close> is the call that leaves the argument
  out, and the function then takes the default of its signature
  (\<^verbatim>\<open>newline: bool = true\<close>).
\<close>

definition Console_write :: "world \<Rightarrow> ustring \<Rightarrow> bool option \<Rightarrow> world" where
  "Console_write w s newline =
     IO_writeString w 1 s (case newline of None \<Rightarrow> True | Some b \<Rightarrow> b)"

definition Console_readAll :: "world \<Rightarrow> world \<times> ustring option" where
  "Console_readAll w = IO_readString w 0 4096"

definition Console_log :: "world \<Rightarrow> ustring \<Rightarrow> world" where
  "Console_log w s = Console_write w s None"

definition Console_error :: "world \<Rightarrow> ustring \<Rightarrow> bool option \<Rightarrow> world" where
  "Console_error w s newline =
     IO_writeString w 2 s (case newline of None \<Rightarrow> True | Some b \<Rightarrow> b)"

subsection \<open>Observations\<close>

text \<open>
  The regions that were requested between two worlds and were not released exactly once
  in between: the addresses of the requests made after \<open>w\<close> whose number of releases
  made after \<open>w\<close> is not one.
\<close>

definition leaked :: "world \<Rightarrow> world \<Rightarrow> address list" where
  "leaked w w' =
     (let new_allocs = drop (length (allocs w)) (allocs w');
          new_frees = drop (length (frees w)) (frees w')
      in filter (\<lambda>p. count_list new_frees p \<noteq> 1) (map fst new_allocs))"

text \<open>A world to run the layer in: zeroed memory, nothing requested, no stream has data.\<close>

definition world0 :: world where
  "world0 = \<lparr>mem = (\<lambda>_. 0), brk = 0, allocs = [], frees = [],
              input = (\<lambda>_. []), calls = []\<rparr>"

text \<open>The strings that the encoder covers: every character is a code point of Unicode.\<close>

definition well_formed :: "ustring \<Rightarrow> bool" where
  "well_formed s = list_all (\<lambda>c. c < 0x110000) s"

section \<open>Properties\<close>

subsection \<open>Linear memory\<close>

lemma load_store_u32: "load_u32 (store_u32 m a v) a = v"
  unfolding load_u32_def store_u32_def
  apply simp
  apply (rule bit_word_eqI)
  apply (auto simp add: bit_simps not_less)
  subgoal for n by (cases "n < 24") (auto simp: not_less)
  done

lemma store_u32_other: "x < a \<or> a + 4 \<le> x \<Longrightarrow> store_u32 m a v x = m x"
  by (auto simp: store_u32_def)

lemma load_u32_cong: "(\<And>x. a \<le> x \<Longrightarrow> x < a + 4 \<Longrightarrow> m' x = m x) \<Longrightarrow> load_u32 m' a = load_u32 m a"
  by (simp add: load_u32_def)

lemma load_u32_store_u32_other:
  "a + 4 \<le> b \<or> b + 4 \<le> a \<Longrightarrow> load_u32 (store_u32 m a v) b = load_u32 m b"
  by (rule load_u32_cong) (auto simp: store_u32_other)

lemma load_u32_upd_other:
  "x < a \<or> a + 4 \<le> x \<Longrightarrow> load_u32 (m(x := v)) a = load_u32 m a"
  by (rule load_u32_cong) auto

lemma store_bytes_other: "x < a \<or> a + length bs \<le> x \<Longrightarrow> store_bytes m a bs x = m x"
  by (induction bs arbitrary: m a) auto

lemma load_u32_store_bytes_other:
  "a + 4 \<le> p \<or> p + length bs \<le> a \<Longrightarrow> load_u32 (store_bytes m p bs) a = load_u32 m a"
  by (rule load_u32_cong) (auto simp: store_bytes_other)

lemma load_bytes_cong:
  "(\<And>x. a \<le> x \<Longrightarrow> x < a + n \<Longrightarrow> m' x = m x) \<Longrightarrow> load_bytes m' a n = load_bytes m a n"
  by (induction n arbitrary: a) auto

lemma load_bytes_store_u32_other:
  "p + n \<le> a \<or> a + 4 \<le> p \<Longrightarrow> load_bytes (store_u32 m a v) p n = load_bytes m p n"
  by (rule load_bytes_cong) (auto simp: store_u32_other)

lemma load_bytes_upd_other:
  "x < p \<or> p + n \<le> x \<Longrightarrow> load_bytes (m(x := v)) p n = load_bytes m p n"
  by (rule load_bytes_cong) auto

lemma load_bytes_store_bytes_other:
  "p + n \<le> a \<or> a + length bs \<le> p \<Longrightarrow> load_bytes (store_bytes m a bs) p n = load_bytes m p n"
  by (rule load_bytes_cong) (auto simp: store_bytes_other)

lemma load_bytes_store_bytes_prefix:
  "load_bytes (store_bytes m a (bs @ cs)) a (length bs) = bs"
proof (induction bs arbitrary: m a)
  case Nil
  then show ?case by simp
next
  case (Cons b bs)
  have "store_bytes (m(a := b)) (Suc a) (bs @ cs) a = b"
    by (simp add: store_bytes_other)
  with Cons show ?case by simp
qed

lemma load_bytes_store_bytes: "load_bytes (store_bytes m a bs) a (length bs) = bs"
  using load_bytes_store_bytes_prefix [of m a bs "[]"] by simp

lemma unat_of_nat_u32: "n < 2 ^ 32 \<Longrightarrow> unat (of_nat n :: u32) = n"
  by (simp add: unat_of_nat)

lemma load_iovs_1: "load_iovs m iov 1 = [(unat (load_u32 m iov), unat (load_u32 m (iov + 4)))]"
  by simp

lemma load_iovs_2: "load_iovs m iov 2 =
   [(unat (load_u32 m iov), unat (load_u32 m (iov + 4))),
    (unat (load_u32 m (iov + 8)), unat (load_u32 m (iov + 12)))]"
  by (simp add: numeral_2_eq_2 add.assoc)

lemma load_bytes_1: "load_bytes m a 1 = [m a]"
  by simp

subsection \<open>What the write operations do\<close>

text \<open>The steps of the operations, for unfolding, and the memory facts they need.\<close>

lemmas ops = allocate_def store32_def store8_def free_def Let_def lengthUTF8_def sizeof_usize_def
  toUTF8_def
lemmas memsimps = load_iovs_1 load_iovs_2 load_bytes_1
      load_store_u32 load_u32_store_u32_other load_u32_upd_other load_u32_store_bytes_other
      load_bytes_store_u32_other load_bytes_upd_other load_bytes_store_bytes_prefix
      load_bytes_store_bytes load_bytes_store_bytes_other
      store_u32_other unat_of_nat_u32

lemma writeStringLn_calls:
  assumes "brk w + length (utf8 s) + 18 < 2 ^ 32"
  shows "calls (IO_writeStringLn w fd s) =
         calls w @ [Sys_write fd [(brk w, length (utf8 s)), (brk w + length (utf8 s) + 17, 1)]
                      (utf8 s @ [10])]"
  using assms
  by (simp add: IO_writeStringLn_def fd_write_def ops memsimps
      del: of_nat_add of_nat_numeral of_nat_Suc)

lemma writeString_calls:
  assumes "brk w + length (utf8 s) < 2 ^ 32"
  shows "calls (IO_writeString w fd s False) =
         calls w @ [Sys_write fd [(brk w, length (utf8 s))] (utf8 s)]"
  using assms
  by (simp add: IO_writeString_def fd_write_def ops memsimps
      del: of_nat_add of_nat_numeral of_nat_Suc)

lemma write_calls:
  assumes "brk w < 2 ^ 32" "length data < 2 ^ 32"
  shows "calls (IO_write w fd data) = calls w @ [Sys_write fd [(brk w, length data)] data]"
  using assms
  by (simp add: IO_write_def fd_write_def ops memsimps
      del: of_nat_add of_nat_numeral of_nat_Suc)

lemma write_allocs:
  "allocs (IO_write w fd data) =
     allocs w @ [(brk w, length data), (brk w + max (length data) 1, 8),
                 (brk w + max (length data) 1 + 8, 4)]"
  "frees (IO_write w fd data) = frees w @ [brk w + max (length data) 1 + 8, brk w]"
  by (simp_all add: IO_write_def fd_write_def ops)

lemma writeString_allocs:
  "allocs (IO_writeString w fd s False) =
     allocs w @ [(brk w, length (utf8 s) + 1), (brk w + length (utf8 s) + 1, 8),
                 (brk w + length (utf8 s) + 9, 4)]"
  "frees (IO_writeString w fd s False) = frees w @ [brk w + length (utf8 s) + 9, brk w]"
  by (simp_all add: IO_writeString_def fd_write_def ops)

lemma writeStringLn_allocs:
  "allocs (IO_writeStringLn w fd s) =
     allocs w @ [(brk w, length (utf8 s) + 1), (brk w + length (utf8 s) + 1, 16),
                 (brk w + length (utf8 s) + 17, 1), (brk w + length (utf8 s) + 18, 4)]"
  "frees (IO_writeStringLn w fd s) = frees w @ [brk w + length (utf8 s) + 18, brk w]"
  by (simp_all add: IO_writeStringLn_def fd_write_def ops)

subsection \<open>What the read operations request and release\<close>

lemma fd_read_frame:
  "allocs (fst (fd_read w fd iov k p)) = allocs w"
  "frees (fst (fd_read w fd iov k p)) = frees w"
  "brk (fst (fd_read w fd iov k p)) = brk w"
  by (simp_all add: fd_read_def Let_def split: list.splits read_event.splits)

lemma read_allocs:
  "allocs (fst (IO_read w fd data c)) =
     allocs w @ [(brk w, unat c), (brk w + max (unat c) 1, 8), (brk w + max (unat c) 1 + 8, 4)]"
  "frees (fst (IO_read w fd data c)) = frees w @ [brk w + max (unat c) 1 + 8, brk w]"
  by (simp_all add: IO_read_def ops split_beta fd_read_frame)

lemma readAll_loop_unfold:
  "readAll_loop w fd iov rp dp data r =
     (let w1 = fst (fd_read w fd iov 1 rp);
          r1 = load_u32 (mem w1) rp
      in if snd (fd_read w fd iov 1 rp) \<noteq> SUCCESS then (w1, data, r)
         else if r1 = 0 then (w1, data, r1)
         else readAll_loop w1 fd iov rp dp (data @ load_bytes (mem w1) dp (unat r1)) r1)"
  by (subst readAll_loop.simps) (simp add: split_beta Let_def)

declare readAll_loop.simps [simp del]

lemma readAll_loop_frame:
  "allocs (fst (readAll_loop w fd iov rp dp data r)) = allocs w \<and>
   frees (fst (readAll_loop w fd iov rp dp data r)) = frees w \<and>
   brk (fst (readAll_loop w fd iov rp dp data r)) = brk w"
proof (induction w fd iov rp dp data r rule: readAll_loop.induct)
  case (1 w fd iov read_ptr data_partial data read)
  define w1 where "w1 = fst (fd_read w fd iov 1 read_ptr)"
  define st where "st = snd (fd_read w fd iov 1 read_ptr)"
  define r1 where "r1 = load_u32 (mem w1) read_ptr"
  have fr: "allocs w1 = allocs w \<and> frees w1 = frees w \<and> brk w1 = brk w"
    by (simp add: w1_def fd_read_frame)
  show ?case
  proof (cases "st = SUCCESS \<and> r1 \<noteq> 0")
    case True
    then have "readAll_loop w fd iov read_ptr data_partial data read =
       readAll_loop w1 fd iov read_ptr data_partial
         (data @ load_bytes (mem w1) data_partial (unat r1)) r1"
      by (subst readAll_loop_unfold) (simp add: Let_def w1_def st_def r1_def)
    moreover have "allocs (fst (readAll_loop w1 fd iov read_ptr data_partial
         (data @ load_bytes (mem w1) data_partial (unat r1)) r1)) = allocs w1 \<and>
       frees (fst (readAll_loop w1 fd iov read_ptr data_partial
         (data @ load_bytes (mem w1) data_partial (unat r1)) r1)) = frees w1 \<and>
       brk (fst (readAll_loop w1 fd iov read_ptr data_partial
         (data @ load_bytes (mem w1) data_partial (unat r1)) r1)) = brk w1"
      using True by (intro "1.IH" [of w1 st r1]) (simp_all add: w1_def st_def r1_def prod_eq_iff)
    ultimately show ?thesis using fr by simp
  next
    case False
    then show ?thesis using fr
      by (subst (1 2 3) readAll_loop_unfold) (auto simp: Let_def w1_def st_def r1_def)
  qed
qed

lemma readAll_allocs:
  "allocs (fst (IO_readAll w fd data c)) =
     allocs w @ [(brk w, unat c), (brk w + max (unat c) 1, 8), (brk w + max (unat c) 1 + 8, 4)]"
  "frees (fst (IO_readAll w fd data c)) = frees w @ [brk w + max (unat c) 1 + 8, brk w]"
  "brk (fst (IO_readAll w fd data c)) = brk w + max (unat c) 1 + 12"
  by (simp_all add: IO_readAll_def ops split_beta readAll_loop_frame)

lemma readAll_never_null:
  "snd (snd (IO_readAll w fd data c)) = Some (fst (snd (IO_readAll w fd data c)))"
  by (simp add: IO_readAll_def ops split_beta)

lemma readString_allocs:
  "allocs (fst (IO_readString w fd c)) =
     allocs w @ [(brk w, 4096), (brk w + 4096, 8), (brk w + 4104, 4),
                 (brk w + 4108, length (fst (snd (IO_readAll w fd [] 4096))))]"
  "frees (fst (IO_readString w fd c)) = frees w @ [brk w + 4104, brk w, brk w + 4108]"
  by (simp_all add: IO_readString_def split_beta readAll_never_null ops readAll_allocs)

lemma written_append:
  "written (cs @ [Sys_write fd iovs bs]) fd' = written cs fd' @ (if fd = fd' then bs else [])"
  by (induction cs fd' rule: written.induct) auto

lemma emitted_write:
  "calls w' = calls w @ [Sys_write fd iovs bs] \<Longrightarrow>
     emitted w' fd' = emitted w fd' @ (if fd = fd' then bs else [])"
  by (simp add: emitted_def written_append)

lemma writeStringLn_mem:
  assumes "brk w + length (utf8 s) + 18 < 2 ^ 32"
  shows "load_bytes (mem (IO_writeStringLn w fd s)) (brk w) (length (utf8 s)) = utf8 s"
    and "mem (IO_writeStringLn w fd s) (brk w + length (utf8 s) + 17) = 10"
  using assms
  by (simp_all add: IO_writeStringLn_def fd_write_def ops memsimps
      del: of_nat_add of_nat_numeral of_nat_Suc)

subsection \<open>Reading a stream chunk by chunk\<close>

lemma fd_read_eof:
  "input w fd = [] \<Longrightarrow>
     fd_read w fd iov k rp =
       (w\<lparr>mem := store_u32 (mem w) rp 0,
          calls := calls w @ [Sys_read fd (load_iovs (mem w) iov k) SUCCESS []]\<rparr>, SUCCESS)"
  by (simp add: fd_read_def Let_def)

lemma fd_read_fail:
  "input w fd = Fail e # rest \<Longrightarrow>
     fd_read w fd iov k rp =
       (w\<lparr>input := (input w)(fd := rest),
          calls := calls w @ [Sys_read fd (load_iovs (mem w) iov k) (FAILURE e) []]\<rparr>,
        FAILURE e)"
  by (simp add: fd_read_def Let_def)

lemma fd_read_chunk:
  assumes "input w fd = Chunk bs # rest" "load_iovs (mem w) iov 1 = [(dp, uc)]"
    and "n = min uc (length bs)"
  shows "fd_read w fd iov 1 rp =
       (w\<lparr>mem := store_u32 (store_bytes (mem w) dp (take n bs)) rp (of_nat n),
          input := (input w)(fd := (if drop n bs = [] then rest else Chunk (drop n bs) # rest)),
          calls := calls w @ [Sys_read fd [(dp, uc)] SUCCESS (take n bs)]\<rparr>, SUCCESS)"
  using assms by (simp add: fd_read_def Let_def min.absorb2 del: load_iovs.simps)

lemma load_iovs_1_frame:
  assumes "\<And>x. iov \<le> x \<Longrightarrow> x < iov + 8 \<Longrightarrow> m' x = m x"
  shows "load_iovs m' iov 1 = load_iovs m iov 1"
proof -
  have "load_u32 m' iov = load_u32 m iov" "load_u32 m' (iov + 4) = load_u32 m (iov + 4)"
    by (rule load_u32_cong, simp add: assms)+
  then show ?thesis by (simp add: load_iovs_1)
qed

lemma readAll_loop_chunks:
  "dp + unat (c :: usize) \<le> iov \<Longrightarrow> iov + 8 \<le> rp \<Longrightarrow> 0 < unat c \<Longrightarrow>
         load_iovs (mem w) iov 1 = [(dp, unat c)] \<Longrightarrow>
         input w fd = map Chunk chunks @ tail \<Longrightarrow> [] \<notin> set chunks \<Longrightarrow>
         tail = [] \<or> (\<exists>e rest. tail = Fail e # rest) \<Longrightarrow>
         fst (snd (readAll_loop w fd iov rp dp data r)) = data @ concat chunks"
proof (induction w fd iov rp dp data r arbitrary: chunks rule: readAll_loop.induct)
  case (1 w fd iov read_ptr data_partial data read)
  note g = "1.prems"(1-3) and p = "1.prems"(4-7)
  show ?case
  proof (cases chunks)
    case Nil
    with p(2,4) show ?thesis
      by (subst readAll_loop_unfold)
         (auto simp add: Let_def fd_read_eof fd_read_fail load_store_u32)
  next
    case (Cons bs cs)
    define n where "n = min (unat c) (length bs)"
    define chunks' where "chunks' = (if drop n bs = [] then cs else drop n bs # cs)"
    define w1 where "w1 = w\<lparr>mem := store_u32 (store_bytes (mem w) data_partial (take n bs))
                                    read_ptr (of_nat n),
          input := (input w)(fd := (if drop n bs = [] then map Chunk cs @ tail
                                     else Chunk (drop n bs) # map Chunk cs @ tail)),
          calls := calls w @ [Sys_read fd [(data_partial, unat c)] SUCCESS (take n bs)]\<rparr>"
    have f: "fd_read w fd iov 1 read_ptr = (w1, SUCCESS)"
      using fd_read_chunk [of w fd bs "map Chunk cs @ tail" iov data_partial "unat c" n read_ptr]
        p(1,2) Cons by (simp add: n_def w1_def)
    have bs: "bs \<noteq> []" using p(3) Cons by auto
    then have n0: "0 < n" and nle: "n \<le> length bs" "n \<le> unat c"
      using g(3) by (simp_all add: n_def)
    have "unat c < 2 ^ 32" using unsigned_less [of c, where 'a = nat] by simp
    with nle(2) have "n < 2 ^ 32" by simp
    then have un: "unat (word_of_nat n :: u32) = n" by (rule unat_of_nat_u32)
    have r1: "load_u32 (mem w1) read_ptr = of_nat n"
      by (simp add: w1_def load_store_u32)
    have nz: "(word_of_nat n :: u32) \<noteq> 0"
      using un n0 by auto
    have lb: "load_bytes (mem w1) data_partial n = take n bs"
      using load_bytes_store_bytes [of "mem w" data_partial "take n bs"] g nle
      by (simp add: w1_def load_bytes_store_u32_other min.absorb2)
    have iv: "load_iovs (mem w1) iov 1 = [(data_partial, unat c)]"
    proof -
      have "load_iovs (mem w1) iov 1 = load_iovs (mem w) iov 1"
        using g nle by (intro load_iovs_1_frame) (simp add: w1_def store_u32_other store_bytes_other)
      with p(1) show ?thesis by simp
    qed
    have inp: "input w1 fd = map Chunk chunks' @ tail"
      by (simp add: w1_def chunks'_def)
    have ne: "[] \<notin> set chunks'"
      using p(3) Cons by (auto simp: chunks'_def)
    have "fst (snd (readAll_loop w1 fd iov read_ptr data_partial
             (data @ load_bytes (mem w1) data_partial (unat (load_u32 (mem w1) read_ptr)))
             (load_u32 (mem w1) read_ptr))) =
          (data @ load_bytes (mem w1) data_partial (unat (load_u32 (mem w1) read_ptr)))
            @ concat chunks'"
      using f nz r1 iv inp ne p(4) g
      by (intro "1.IH" [of w1 SUCCESS "load_u32 (mem w1) read_ptr" chunks']) simp_all
    moreover have "readAll_loop w fd iov read_ptr data_partial data read =
        readAll_loop w1 fd iov read_ptr data_partial
             (data @ load_bytes (mem w1) data_partial (unat (load_u32 (mem w1) read_ptr)))
             (load_u32 (mem w1) read_ptr)"
      using f nz r1 by (subst readAll_loop_unfold) (simp add: Let_def)
    moreover have "take n bs @ concat chunks' = concat chunks"
      using Cons by (simp add: chunks'_def)
    ultimately show ?thesis by (simp add: r1 un lb)
  qed
qed

lemma readAll_chunks:
  assumes "brk w < 2 ^ 32" "0 < c" "input w fd = map Chunk chunks @ tail" "[] \<notin> set chunks"
    "tail = [] \<or> (\<exists>e rest. tail = Fail e # rest)"
  shows "snd (IO_readAll w fd data c) = (data @ concat chunks, Some (data @ concat chunks))"
proof -
  have uc: "0 < unat c" using assms(2) by (simp add: word_less_nat_alt)
  define m where "m = store_u32 (store_u32 (mem w) (brk w + unat c) (of_nat (brk w)))
                        (brk w + unat c + 4) c"
  define w3 where "w3 = w\<lparr>mem := m, brk := brk w + unat c + 12,
      allocs := allocs w @ [(brk w, unat c), (brk w + unat c, 8), (brk w + unat c + 8, 4)]\<rparr>"
  have iv: "load_iovs (mem w3) (brk w + unat c) 1 = [(brk w, unat c)]"
    using assms(1)
    by (simp add: w3_def m_def memsimps add.assoc del: of_nat_add of_nat_numeral of_nat_Suc)
  have l: "fst (snd (readAll_loop w3 fd (brk w + unat c) (brk w + unat c + 8) (brk w) data 0))
             = data @ concat chunks"
    using uc iv assms(3-5)
    by (intro readAll_loop_chunks [where c = c and tail = tail]) (simp_all add: w3_def)
  have "fst (snd (IO_readAll w fd data c)) = data @ concat chunks"
  proof -
    have mx: "max (unat c) (Suc 0) = unat c" using uc by simp
    show ?thesis
      using l by (simp add: IO_readAll_def ops split_beta w3_def m_def mx add.assoc)
  qed
  then show ?thesis
    using readAll_never_null [of w fd data c] by (simp add: prod_eq_iff)
qed

subsection \<open>One read, and a failing read against the end of the stream\<close>

lemma unat_u32_bound: "unat (c :: u32) < 2 ^ 32"
  using unsigned_less [of c, where 'a = nat] by simp

lemma take_min_length: "take (min k (length bs)) bs = take k bs"
  by (simp add: min_def)

text \<open>The world in which \<^verbatim>\<open>IO.read\<close> and \<^verbatim>\<open>IO.readAll\<close> make their first host call.\<close>

lemma read_unfold:
  "IO_read w fd data c =
     (let dp = brk w; iov = brk w + max (unat c) 1; rp = brk w + max (unat c) 1 + 8;
          W = w\<lparr>mem := store_u32 (store_u32 (mem w) iov (word_of_nat dp)) (iov + 4) c,
                  brk := brk w + max (unat c) 1 + 12,
                  allocs := allocs w @ [(dp, unat c), (iov, 8), (rp, 4)]\<rparr>;
          w1 = fst (fd_read W fd iov 1 rp);
          read = load_u32 (mem w1) rp;
          data' = (if read > 0 then data @ load_bytes (mem w1) dp (unat read) else data)
      in (free (free w1 rp) dp, data', if read \<le> 0 then None else Some data'))"
  by (simp add: IO_read_def ops split_beta add.assoc
      del: of_nat_add of_nat_numeral of_nat_Suc)

lemma read_eof:
  assumes "input w fd = []"
  shows "calls (fst (IO_read w fd data c)) =
           calls w @ [Sys_read fd [(unat (word_of_nat (brk w) :: u32), unat c)] SUCCESS []]"
    and "snd (IO_read w fd data c) = (data, None)"
  using assms
  by (simp_all add: read_unfold Let_def fd_read_eof free_def memsimps)

lemma read_fail:
  assumes "input w fd = Fail e # rest"
  shows "calls (fst (IO_read w fd data c)) =
           calls w @ [Sys_read fd [(unat (word_of_nat (brk w) :: u32), unat c)] (FAILURE e) []]"
  using assms
  by (simp add: read_unfold Let_def fd_read_fail free_def memsimps)

lemma read_chunk:
  assumes "input w fd = Chunk bs # rest"
  shows "calls (fst (IO_read w fd data c)) =
           calls w @ [Sys_read fd [(unat (word_of_nat (brk w) :: u32), unat c)] SUCCESS
                        (take (unat c) bs)]"
    and "take (unat c) bs = [] \<Longrightarrow> snd (IO_read w fd data c) = (data, None)"
    and "brk w < 2 ^ 32 \<Longrightarrow> take (unat c) bs \<noteq> [] \<Longrightarrow>
         snd (IO_read w fd data c) = (data @ take (unat c) bs, Some (data @ take (unat c) bs))"
proof -
  define n where "n = min (unat c) (length bs)"
  define dp where "dp = brk w"
  define iov where "iov = brk w + max (unat c) 1"
  define W where "W = w\<lparr>mem := store_u32 (store_u32 (mem w) iov (word_of_nat dp)) (iov + 4) c,
                  brk := brk w + max (unat c) 1 + 12,
                  allocs := allocs w @ [(dp, unat c), (iov, 8), (iov + 8, 4)]\<rparr>"
  define p where "p = unat (word_of_nat dp :: u32)"
  have tk: "take n bs = take (unat c) bs" by (simp add: n_def take_min_length)
  have len: "length (take (unat c) bs) = n" by (simp add: n_def min.commute)
  have "n < 2 ^ 32" using unat_u32_bound [of c] by (simp add: n_def)
  then have un: "unat (word_of_nat n :: u32) = n" by (rule unat_of_nat_u32)
  have f: "fd_read W fd iov 1 (iov + 8) =
       (W\<lparr>mem := store_u32 (store_bytes (mem W) p (take n bs)) (iov + 8) (of_nat n),
          input := (input W)(fd := (if drop n bs = [] then rest else Chunk (drop n bs) # rest)),
          calls := calls W @ [Sys_read fd [(p, unat c)] SUCCESS (take n bs)]\<rparr>, SUCCESS)"
    using assms by (intro fd_read_chunk) (simp_all add: W_def memsimps p_def n_def)
  have u: "IO_read w fd data c =
     (let w1 = fst (fd_read W fd iov 1 (iov + 8));
          read = load_u32 (mem w1) (iov + 8);
          data' = (if read > 0 then data @ load_bytes (mem w1) dp (unat read) else data)
      in (free (free w1 (iov + 8)) dp, data', if read \<le> 0 then None else Some data'))"
    by (simp add: read_unfold Let_def W_def iov_def dp_def add.assoc)
  show "calls (fst (IO_read w fd data c)) =
           calls w @ [Sys_read fd [(unat (word_of_nat (brk w) :: u32), unat c)] SUCCESS
                        (take (unat c) bs)]"
    unfolding u f by (simp add: Let_def free_def tk W_def p_def dp_def)
  show "snd (IO_read w fd data c) = (data, None)" if "take (unat c) bs = []"
  proof -
    have "n = 0" using that len by auto
    then show ?thesis unfolding u f by (simp add: Let_def load_store_u32)
  qed
  show "snd (IO_read w fd data c) = (data @ take (unat c) bs, Some (data @ take (unat c) bs))"
    if b: "brk w < 2 ^ 32" and ne: "take (unat c) bs \<noteq> []"
  proof -
    have n0: "0 < n" using ne by (cases bs) (auto simp: n_def)
    then have pos: "0 < (word_of_nat n :: u32)" using un by (simp add: word_less_nat_alt)
    then have nle: "\<not> (word_of_nat n :: u32) \<le> 0" by (simp add: not_le)
    have pp: "p = dp" using b by (simp add: p_def dp_def unat_of_nat_u32)
    have "dp + n \<le> iov" by (simp add: dp_def iov_def n_def)
    then have lb: "load_bytes (store_u32 (store_bytes (mem W) dp (take (unat c) bs)) (iov + 8)
                      (word_of_nat n)) dp n = take (unat c) bs"
      using load_bytes_store_bytes [of "mem W" dp "take (unat c) bs"] len
      by (simp add: load_bytes_store_u32_other)
    show ?thesis
      using pos nle unfolding u f by (simp add: Let_def load_store_u32 un pp lb tk)
  qed
qed

lemma readAll_unfold:
  "fst (snd (IO_readAll w fd data c)) =
     (let dp = brk w; iov = brk w + max (unat c) 1; rp = brk w + max (unat c) 1 + 8;
          W = w\<lparr>mem := store_u32 (store_u32 (mem w) iov (word_of_nat dp)) (iov + 4) c,
                  brk := brk w + max (unat c) 1 + 12,
                  allocs := allocs w @ [(dp, unat c), (iov, 8), (rp, 4)]\<rparr>
      in fst (snd (readAll_loop W fd iov rp dp data 0)))"
  by (simp add: IO_readAll_def ops split_beta add.assoc
      del: of_nat_add of_nat_numeral of_nat_Suc)

lemma readAll_loop_stop:
  "fd_read w fd iov 1 rp = (w1, st) \<Longrightarrow> st \<noteq> SUCCESS \<or> load_u32 (mem w1) rp = 0 \<Longrightarrow>
     fst (snd (readAll_loop w fd iov rp dp data r)) = data"
  by (subst readAll_loop_unfold) (auto simp add: Let_def)

lemma readAll_loop_go:
  "fd_read w fd iov 1 rp = (w1, SUCCESS) \<Longrightarrow> load_u32 (mem w1) rp \<noteq> 0 \<Longrightarrow>
     readAll_loop w fd iov rp dp data r =
     readAll_loop w1 fd iov rp dp (data @ load_bytes (mem w1) dp (unat (load_u32 (mem w1) rp)))
       (load_u32 (mem w1) rp)"
  by (subst readAll_loop_unfold) (simp add: Let_def)

lemma readAll_loop_error_like_eof:
  "mem v = mem w \<Longrightarrow> input w fd = evs @ Fail e # rest \<Longrightarrow> input v fd = evs \<Longrightarrow>
   fst (snd (readAll_loop w fd iov rp dp data r)) =
   fst (snd (readAll_loop v fd iov rp dp data r'))"
proof (induction w fd iov rp dp data r arbitrary: v evs r' rule: readAll_loop.induct)
  case (1 w fd iov read_ptr data_partial data read)
  note p = "1.prems"
  show ?case
  proof (cases evs)
    case Nil
    with p show ?thesis
      by (subst (1 2) readAll_loop_unfold)
         (simp add: Let_def fd_read_eof fd_read_fail load_store_u32)
  next
    case (Cons ev evs')
    show ?thesis
    proof (cases ev)
      case (Fail k)
      with Cons p show ?thesis
        by (subst (1 2) readAll_loop_unfold) (simp add: Let_def fd_read_fail)
    next
      case (Chunk bs)
      define iovs where "iovs = load_iovs (mem w) iov 1"
      define n where "n = min (sum_list (map snd iovs)) (length bs)"
      define m' where "m' = store_u32 (scatter (mem w) iovs (take n bs)) read_ptr (of_nat n)"
      define X where "X = (if drop n bs = [] then evs' else Chunk (drop n bs) # evs')"
      define w1 where "w1 = w\<lparr>mem := m', input := (input w)(fd := X @ Fail e # rest),
                              calls := calls w @ [Sys_read fd iovs SUCCESS (take n bs)]\<rparr>"
      define v1 where "v1 = v\<lparr>mem := m', input := (input v)(fd := X),
                              calls := calls v @ [Sys_read fd iovs SUCCESS (take n bs)]\<rparr>"
      define r1 where "r1 = load_u32 m' read_ptr"
      have fw: "fd_read w fd iov 1 read_ptr = (w1, SUCCESS)"
        using p(2) Cons Chunk
        by (simp add: fd_read_def Let_def w1_def m'_def n_def iovs_def X_def
            del: load_iovs.simps)
      have fv: "fd_read v fd iov 1 read_ptr = (v1, SUCCESS)"
        using p(1,3) Cons Chunk
        by (simp add: fd_read_def Let_def v1_def m'_def n_def iovs_def X_def
            del: load_iovs.simps)
      have mw: "mem w1 = m'" "mem v1 = m'" by (simp_all add: w1_def v1_def)
      show ?thesis
      proof (cases "r1 = 0")
        case True
        then show ?thesis
          using readAll_loop_stop [OF fw, of data_partial data read]
            readAll_loop_stop [OF fv, of data_partial data r']
          by (simp add: mw r1_def)
      next
        case False
        have "fst (snd (readAll_loop w1 fd iov read_ptr data_partial
                 (data @ load_bytes (mem w1) data_partial (unat r1)) r1)) =
              fst (snd (readAll_loop v1 fd iov read_ptr data_partial
                 (data @ load_bytes (mem w1) data_partial (unat r1)) r1))"
          using fw False
          by (intro "1.IH" [of w1 SUCCESS r1 v1 X r1])
             (simp_all add: mw r1_def, simp_all add: w1_def v1_def)
        then show ?thesis
          using False
            readAll_loop_go [OF fw, of data_partial data read]
            readAll_loop_go [OF fv, of data_partial data r']
          by (simp add: mw r1_def)
      qed
    qed
  qed
qed

lemma readAll_error_like_eof:
  "snd (IO_readAll (w\<lparr>input := (input w)(fd := evs @ Fail e # rest)\<rparr>) fd data c) =
   snd (IO_readAll (w\<lparr>input := (input w)(fd := evs)\<rparr>) fd data c)"
proof -
  have "fst (snd (IO_readAll (w\<lparr>input := (input w)(fd := evs @ Fail e # rest)\<rparr>) fd data c)) =
        fst (snd (IO_readAll (w\<lparr>input := (input w)(fd := evs)\<rparr>) fd data c))"
    apply (simp add: readAll_unfold Let_def)
    apply (rule readAll_loop_error_like_eof [where evs = evs and e = e and rest = rest])
      apply simp_all
    done
  then show ?thesis
    using readAll_never_null [of "w\<lparr>input := (input w)(fd := evs @ Fail e # rest)\<rparr>" fd data c]
      readAll_never_null [of "w\<lparr>input := (input w)(fd := evs)\<rparr>" fd data c]
    by (simp add: prod_eq_iff)
qed

subsection \<open>UTF-8: decoding what was encoded\<close>

lemma unat_of_nat_u8: "n < 256 \<Longrightarrow> unat (of_nat n :: u8) = n"
  by (simp add: unat_of_nat)

lemma digits2: "(c::nat) div 64 * 64 + c mod 64 = c"
  by simp

lemma digits3: "(c::nat) div 4096 * 4096 + c div 64 mod 64 * 64 + c mod 64 = c"
proof -
  define a where "a = c div 64"
  have "c div 4096 = a div 64" by (simp add: a_def div_mult2_eq [symmetric])
  moreover have "a div 64 * 64 + a mod 64 = a" by simp
  then have "a div 64 * 4096 + a mod 64 * 64 = a * 64" by linarith
  moreover have "a * 64 + c mod 64 = c" by (simp add: a_def)
  ultimately show ?thesis by (simp add: a_def)
qed

lemma digits4:
  "(c::nat) div 262144 * 262144 + c div 4096 mod 64 * 4096 + c div 64 mod 64 * 64 + c mod 64 = c"
proof -
  define a where "a = c div 64"
  have e: "c div 262144 = a div 4096" "c div 4096 = a div 64"
    by (simp_all add: a_def div_mult2_eq [symmetric])
  have "a div 4096 * 4096 + a div 64 mod 64 * 64 + a mod 64 = a" by (rule digits3)
  then have "a div 4096 * 262144 + a div 64 mod 64 * 4096 + a mod 64 * 64 = a * 64" by linarith
  moreover have "a * 64 + c mod 64 = c" by (simp add: a_def)
  ultimately show ?thesis by (simp add: e) (simp add: a_def)
qed

lemma mod_lead: "q < k \<Longrightarrow> (m * k + q) mod k = (q::nat)"
  by simp

lemma m64: "(0x80 + (x::nat) mod 64) mod 64 = x mod 64"
  using mod_lead [of "x mod 64" 64 2] by simp

lemma b64: "0x80 + (x::nat) mod 64 < 256"
proof -
  have "x mod 64 < 64" by simp
  then show ?thesis by linarith
qed

lemma utf8_decode_1:
  assumes "c < 0x80"
  shows "utf8_decode (utf8_char c @ bs) = c # utf8_decode bs"
proof -
  have "unat (of_nat c :: u8) = c" using assms by (intro unat_of_nat_u8) simp
  with assms show ?thesis by (simp add: utf8_char_def)
qed

lemma utf8_decode_2:
  assumes "0x80 \<le> c" "c < 0x800"
  shows "utf8_decode (utf8_char c @ bs) = c # utf8_decode bs"
proof -
  define q where "q = c div 64"
  have q: "q < 32" unfolding q_def using assms(2) by (intro less_mult_imp_div_less) simp
  have a: "unat (of_nat (0xC0 + q) :: u8) = 0xC0 + q"
    using q by (intro unat_of_nat_u8) simp
  have b: "unat (of_nat (0x80 + c mod 64) :: u8) = 0x80 + c mod 64"
    by (intro unat_of_nat_u8 b64)
  have hd: "(0xC0 + q) mod 32 = q" using mod_lead [of q 32 6] q by simp
  have u: "utf8_char c = [of_nat (0xC0 + q), of_nat (0x80 + c mod 64)]"
    using assms by (simp add: utf8_char_def q_def)
  have "utf8_decode (of_nat (0xC0 + q) # of_nat (0x80 + c mod 64) # bs) =
          ((0xC0 + q) mod 32 * 64 + (0x80 + c mod 64) mod 64) # utf8_decode bs"
    using q by (subst utf8_decode.simps) (simp add: a b del: of_nat_add of_nat_numeral)
  also have "(0xC0 + q) mod 32 * 64 + (0x80 + c mod 64) mod 64 = c"
    by (simp only: hd m64) (simp only: q_def digits2)
  finally show ?thesis by (simp add: u)
qed

lemma utf8_decode_3:
  assumes "0x800 \<le> c" "c < 0x10000"
  shows "utf8_decode (utf8_char c @ bs) = c # utf8_decode bs"
proof -
  define q where "q = c div 4096"
  define x where "x = c div 64"
  have q: "q < 16" unfolding q_def using assms(2) by (intro less_mult_imp_div_less) simp
  have a: "unat (of_nat (0xE0 + q) :: u8) = 0xE0 + q"
    using q by (intro unat_of_nat_u8) simp
  have b: "unat (of_nat (0x80 + x mod 64) :: u8) = 0x80 + x mod 64"
    by (intro unat_of_nat_u8 b64)
  have d: "unat (of_nat (0x80 + c mod 64) :: u8) = 0x80 + c mod 64"
    by (intro unat_of_nat_u8 b64)
  have hd: "(0xE0 + q) mod 16 = q" using mod_lead [of q 16 14] q by simp
  have u: "utf8_char c = [of_nat (0xE0 + q), of_nat (0x80 + x mod 64), of_nat (0x80 + c mod 64)]"
    using assms by (simp add: utf8_char_def q_def x_def)
  have "utf8_decode (of_nat (0xE0 + q) # of_nat (0x80 + x mod 64) # of_nat (0x80 + c mod 64) # bs) =
          ((0xE0 + q) mod 16 * 4096 + (0x80 + x mod 64) mod 64 * 64 + (0x80 + c mod 64) mod 64)
            # utf8_decode bs"
    using q by (subst utf8_decode.simps) (simp add: a b d del: of_nat_add of_nat_numeral)
  also have "(0xE0 + q) mod 16 * 4096 + (0x80 + x mod 64) mod 64 * 64 + (0x80 + c mod 64) mod 64
               = c"
    by (simp only: hd m64) (simp only: q_def x_def digits3)
  finally show ?thesis by (simp add: u)
qed

lemma utf8_decode_4:
  assumes "0x10000 \<le> c" "c < 0x110000"
  shows "utf8_decode (utf8_char c @ bs) = c # utf8_decode bs"
proof -
  define q where "q = c div 262144"
  define y where "y = c div 4096"
  define x where "x = c div 64"
  have "c < 8 * 262144" using assms(2) by simp
  then have q: "q < 8" unfolding q_def by (rule less_mult_imp_div_less)
  have a: "unat (of_nat (0xF0 + q) :: u8) = 0xF0 + q"
    using q by (intro unat_of_nat_u8) simp
  have b: "unat (of_nat (0x80 + y mod 64) :: u8) = 0x80 + y mod 64"
    by (intro unat_of_nat_u8 b64)
  have b': "unat (of_nat (0x80 + x mod 64) :: u8) = 0x80 + x mod 64"
    by (intro unat_of_nat_u8 b64)
  have d: "unat (of_nat (0x80 + c mod 64) :: u8) = 0x80 + c mod 64"
    by (intro unat_of_nat_u8 b64)
  have hd: "(0xF0 + q) mod 8 = q" using mod_lead [of q 8 30] q by simp
  have u: "utf8_char c = [of_nat (0xF0 + q), of_nat (0x80 + y mod 64),
                          of_nat (0x80 + x mod 64), of_nat (0x80 + c mod 64)]"
    using assms by (simp add: utf8_char_def q_def x_def y_def)
  have "utf8_decode (of_nat (0xF0 + q) # of_nat (0x80 + y mod 64) # of_nat (0x80 + x mod 64)
                       # of_nat (0x80 + c mod 64) # bs) =
          ((0xF0 + q) mod 8 * 262144 + (0x80 + y mod 64) mod 64 * 4096
             + (0x80 + x mod 64) mod 64 * 64 + (0x80 + c mod 64) mod 64) # utf8_decode bs"
    by (subst utf8_decode.simps) (simp add: a b b' d del: of_nat_add of_nat_numeral)
  also have "(0xF0 + q) mod 8 * 262144 + (0x80 + y mod 64) mod 64 * 4096
             + (0x80 + x mod 64) mod 64 * 64 + (0x80 + c mod 64) mod 64 = c"
    by (simp only: hd m64) (simp only: q_def x_def y_def digits4)
  finally show ?thesis by (simp add: u)
qed

lemma utf8_decode_char:
  assumes "c < 0x110000"
  shows "utf8_decode (utf8_char c @ bs) = c # utf8_decode bs"
proof -
  consider "c < 0x80" | "0x80 \<le> c" "c < 0x800" | "0x800 \<le> c" "c < 0x10000"
    | "0x10000 \<le> c" "c < 0x110000"
    using assms by linarith
  then show ?thesis
    by cases (simp_all only: utf8_decode_1 utf8_decode_2 utf8_decode_3 utf8_decode_4)
qed

lemma utf8_roundtrip: "well_formed s \<Longrightarrow> utf8_decode (utf8 s) = s"
  by (induction s) (simp_all add: well_formed_def utf8_decode_char del: utf8_decode.simps(2))

lemma readString_result:
  "snd (IO_readString w fd c) = Some (utf8_decode (fst (snd (IO_readAll w fd [] 4096))))"
proof -
  obtain w1 d1 where r: "IO_readAll w fd [] 4096 = (w1, d1, Some d1)"
    using readAll_never_null [of w fd "[]" 4096]
    by (cases "IO_readAll w fd [] 4096") auto
  show ?thesis
    by (simp add: IO_readString_def r fromUTF8_def ops load_bytes_store_bytes)
qed

subsection \<open>The claims on releases and on the write operations\<close>

text \<open>
  C1 (fails on the code). Every region that an invocation requests is released exactly
  once before the invocation returns. The code releases the data buffer and the count
  buffer only: after each of the six operations the I/O vector list is still held, and
  after \<^verbatim>\<open>writeStringLn\<close> the newline byte as well.
\<close>

theorem vector_list_never_released:
  "leaked w (IO_write w fd data) = [brk w + max (length data) 1] \<and>
   leaked w (IO_writeString w fd s False) = [brk w + length (utf8 s) + 1] \<and>
   leaked w (IO_writeStringLn w fd s) =
     [brk w + length (utf8 s) + 1, brk w + length (utf8 s) + 17] \<and>
   leaked w (fst (IO_read w fd data c)) = [brk w + max (unat c) 1] \<and>
   leaked w (fst (IO_readAll w fd data c)) = [brk w + max (unat c) 1] \<and>
   leaked w (fst (IO_readString w fd c)) = [brk w + 4096] \<and>
   allocs (IO_write world0 1 []) = [(0, 0), (1, 8), (9, 4)] \<and>
   frees (IO_write world0 1 []) = [9, 0]"
  by (simp add: leaked_def write_allocs writeString_allocs writeStringLn_allocs read_allocs
      readAll_allocs readString_allocs world0_def)

text \<open>
  C3. \<^verbatim>\<open>writeStringLn(d, s)\<close> makes one host write, with a vector list of two entries:
  the first covers the UTF-8 encoding of \<open>s\<close>, the second one byte of value 10, so that
  the stream receives the encoding followed by the line feed. The regions lie in the
  32-bit address space.
\<close>

theorem writeStringLn_one_scatter_write:
  assumes "brk w + length (utf8 s) + 18 < 2 ^ 32"
  shows "calls (IO_writeStringLn w d s) =
           calls w @ [Sys_write d [(brk w, length (utf8 s)), (brk w + length (utf8 s) + 17, 1)]
                        (utf8 s @ [10])] \<and>
         load_bytes (mem (IO_writeStringLn w d s)) (brk w) (length (utf8 s)) = utf8 s \<and>
         mem (IO_writeStringLn w d s) (brk w + length (utf8 s) + 17) = 10 \<and>
         emitted (IO_writeStringLn w d s) d = emitted w d @ utf8 s @ [10]"
  using assms writeStringLn_calls [OF assms, of d] writeStringLn_mem [OF assms, of d]
    emitted_write [OF writeStringLn_calls [OF assms, of d], of d]
  by simp

theorem writeStringLn_one_scatter_write_witness:
  "brk world0 + length (utf8 [104, 105]) + 18 < 2 ^ 32 \<and>
   calls (IO_writeStringLn world0 1 [104, 105]) =
     [Sys_write 1 [(0, 2), (19, 1)] [104, 105, 10]] \<and>
   emitted (IO_writeStringLn world0 1 [104, 105]) 1 = [104, 105, 10]"
  using writeStringLn_one_scatter_write [of world0 "[104, 105]" 1]
  by (simp add: world0_def utf8_char_def emitted_def)

text \<open>
  C8. \<^verbatim>\<open>writeString(d, s, true)\<close> does nothing of its own: the world it leaves
  (memory, requests, releases, host calls) is the one \<^verbatim>\<open>writeStringLn(d, s)\<close> leaves.
  So its requests are the four of \<^verbatim>\<open>writeStringLn\<close> and, with the regions in the
  32-bit address space, its only host call is the write of two entries.
\<close>

theorem writeString_newline_is_writeStringLn:
  "IO_writeString w d s True = IO_writeStringLn w d s \<and>
   allocs (IO_writeString w d s True) =
     allocs w @ [(brk w, length (utf8 s) + 1), (brk w + length (utf8 s) + 1, 16),
                 (brk w + length (utf8 s) + 17, 1), (brk w + length (utf8 s) + 18, 4)] \<and>
   (brk w + length (utf8 s) + 18 < 2 ^ 32 \<longrightarrow>
      calls (IO_writeString w d s True) =
        calls w @ [Sys_write d [(brk w, length (utf8 s)), (brk w + length (utf8 s) + 17, 1)]
                     (utf8 s @ [10])])"
proof -
  have e: "IO_writeString w d s True = IO_writeStringLn w d s"
    by (simp add: IO_writeString_def)
  show ?thesis
    unfolding e by (simp add: writeStringLn_allocs writeStringLn_calls)
qed

theorem writeString_newline_is_writeStringLn_witness:
  "IO_writeString world0 7 [104, 105] True = IO_writeStringLn world0 7 [104, 105] \<and>
   brk world0 + length (utf8 [104, 105]) + 18 < 2 ^ 32 \<and>
   calls (IO_writeString world0 7 [104, 105] True) =
     [Sys_write 7 [(0, 2), (19, 1)] [104, 105, 10]]"
proof -
  have u: "utf8 [104, 105] = [104, 105]" by (simp add: utf8_char_def)
  have f: "brk world0 + length (utf8 [104, 105]) + 18 < 2 ^ 32"
    unfolding u by (simp add: world0_def)
  from writeString_newline_is_writeStringLn [of world0 7 "[104, 105]"] f
  have "IO_writeString world0 7 [104, 105] True = IO_writeStringLn world0 7 [104, 105]"
    and "calls (IO_writeString world0 7 [104, 105] True) =
       calls world0 @ [Sys_write 7 [(brk world0, length (utf8 [104, 105])),
                          (brk world0 + length (utf8 [104, 105]) + 17, 1)]
                         (utf8 [104, 105] @ [10])]"
    by blast+
  then show ?thesis using f unfolding u by (simp add: world0_def)
qed

text \<open>
  C9. \<^verbatim>\<open>write(d, [])\<close> requests a data buffer of size zero, makes one host write whose
  vector list has one entry of length zero, sends no byte to any stream, and returns.
\<close>

theorem write_empty:
  "allocs (IO_write w d []) = allocs w @ [(brk w, 0), (brk w + 1, 8), (brk w + 9, 4)] \<and>
   calls (IO_write w d []) = calls w @ [Sys_write d [(unat (word_of_nat (brk w) :: u32), 0)] []] \<and>
   emitted (IO_write w d []) d' = emitted w d'"
proof -
  have c: "calls (IO_write w d []) =
             calls w @ [Sys_write d [(unat (word_of_nat (brk w) :: u32), 0)] []]"
    by (simp add: IO_write_def fd_write_def ops memsimps
        del: of_nat_add of_nat_numeral of_nat_Suc)
  show ?thesis
    using c emitted_write [OF c, of d'] by (simp add: write_allocs)
qed

text \<open>
  C10. The \<^verbatim>\<open>newline\<close> parameter of \<^verbatim>\<open>Console.write\<close> and \<^verbatim>\<open>Console.error\<close> defaults
  to true: \<^verbatim>\<open>Console.write(s)\<close> and \<^verbatim>\<open>Console.log(s)\<close> send the encoding of \<open>s\<close> and a
  line feed to descriptor 1 in one write of two entries, \<^verbatim>\<open>Console.error(s)\<close> does so on
  descriptor 2, and only an explicit \<^verbatim>\<open>false\<close> sends the encoding alone.
\<close>

theorem console_newline_by_default:
  assumes "brk w + length (utf8 s) + 18 < 2 ^ 32"
  shows "calls (Console_write w s None) =
           calls w @ [Sys_write 1 [(brk w, length (utf8 s)), (brk w + length (utf8 s) + 17, 1)]
                        (utf8 s @ [10])] \<and>
         calls (Console_log w s) =
           calls w @ [Sys_write 1 [(brk w, length (utf8 s)), (brk w + length (utf8 s) + 17, 1)]
                        (utf8 s @ [10])] \<and>
         calls (Console_error w s None) =
           calls w @ [Sys_write 2 [(brk w, length (utf8 s)), (brk w + length (utf8 s) + 17, 1)]
                        (utf8 s @ [10])] \<and>
         calls (Console_write w s (Some False)) =
           calls w @ [Sys_write 1 [(brk w, length (utf8 s))] (utf8 s)] \<and>
         calls (Console_error w s (Some False)) =
           calls w @ [Sys_write 2 [(brk w, length (utf8 s))] (utf8 s)]"
proof -
  have f: "brk w + length (utf8 s) < 2 ^ 32" using assms by simp
  show ?thesis
    by (simp add: Console_write_def Console_log_def Console_error_def IO_writeString_def
        writeStringLn_calls [OF assms] writeString_calls [OF f, unfolded IO_writeString_def, simplified])
qed

theorem console_newline_by_default_witness:
  "brk world0 + length (utf8 [111, 107]) + 18 < 2 ^ 32 \<and>
   calls (Console_log world0 [111, 107]) = [Sys_write 1 [(0, 2), (19, 1)] [111, 107, 10]] \<and>
   calls (Console_error world0 [111, 107] None) =
     [Sys_write 2 [(0, 2), (19, 1)] [111, 107, 10]] \<and>
   calls (Console_write world0 [111, 107] (Some False)) = [Sys_write 1 [(0, 2)] [111, 107]]"
  using console_newline_by_default [of world0 "[111, 107]"]
  by (simp add: world0_def utf8_char_def)

subsection \<open>The claims on the read operations\<close>

text \<open>
  C2. \<^verbatim>\<open>IO.readAll\<close> never returns \<^verbatim>\<open>null\<close>: the test \<^verbatim>\<open>read < 0\<close> is on an unsigned
  count, so what comes back is always the array as accumulated. A stream whose next read
  fails and the same stream ending there give the same array and the same result: the
  caller cannot tell the error from the end of the stream.
\<close>

theorem readAll_never_null_error_as_eof:
  "snd (snd (IO_readAll w fd data c)) = Some (fst (snd (IO_readAll w fd data c))) \<and>
   snd (IO_readAll (w\<lparr>input := (input w)(fd := evs @ Fail e # rest)\<rparr>) fd data c) =
   snd (IO_readAll (w\<lparr>input := (input w)(fd := evs)\<rparr>) fd data c)"
  using readAll_never_null [of w fd data c] readAll_error_like_eof [of w fd evs e rest data c]
  by simp

text \<open>
  C4. With a chunk size \<open>c > 0\<close> and a stream whose reads succeed, delivering its bytes
  in pieces of any non-zero sizes, \<^verbatim>\<open>IO.readAll\<close> appends all bytes of the stream in
  order to the target array and returns it, whatever the length of the stream is against
  \<open>c\<close>. If instead a read fails after these bytes, nothing of that read is appended.
  The data buffer lies in the 32-bit address space.
\<close>

theorem readAll_accumulates_stream:
  assumes "brk w < 2 ^ 32" and "0 < c" and "[] \<notin> set chunks"
    and "input w fd = map Chunk chunks @ tail"
    and "tail = [] \<or> (\<exists>e rest. tail = Fail e # rest)"
  shows "snd (IO_readAll w fd data c) = (data @ concat chunks, Some (data @ concat chunks))"
  using assms by (intro readAll_chunks [where tail = tail]) simp_all

theorem readAll_accumulates_stream_witness:
  "brk (world0\<lparr>input := (\<lambda>_. [Chunk [1, 2, 3, 4, 5]])\<rparr>) < 2 ^ 32 \<and> (0 :: usize) < 2 \<and>
   [] \<notin> set [[1, 2, 3, 4, 5 :: u8]] \<and>
   snd (IO_readAll (world0\<lparr>input := (\<lambda>_. [Chunk [1, 2, 3, 4, 5]])\<rparr>) 0 [9] 2) =
     ([9, 1, 2, 3, 4, 5], Some [9, 1, 2, 3, 4, 5])"
  using readAll_accumulates_stream
    [of "world0\<lparr>input := (\<lambda>_. [Chunk [1, 2, 3, 4, 5]])\<rparr>" 2 "[[1, 2, 3, 4, 5]]" 0 "[]" "[9]"]
  by (simp add: world0_def)

text \<open>
  C5. When the one host read that \<^verbatim>\<open>IO.read\<close> makes succeeds with a count of zero, as it
  does at the end of the stream, \<^verbatim>\<open>IO.read\<close> returns \<^verbatim>\<open>null\<close> and the target array is
  what the caller passed in.
\<close>

theorem read_zero_count_returns_null:
  assumes "calls (fst (IO_read w fd data c)) = calls w @ [Sys_read fd iovs SUCCESS []]"
  shows "snd (IO_read w fd data c) = (data, None)"
proof (cases "input w fd")
  case Nil
  then show ?thesis by (rule read_eof(2))
next
  case (Cons ev rest)
  show ?thesis
  proof (cases ev)
    case (Chunk bs)
    with Cons have i: "input w fd = Chunk bs # rest" by simp
    from read_chunk(1) [OF i, of data c] assms have "take (unat c) bs = []" by simp
    with i show ?thesis by (rule read_chunk(2))
  next
    case (Fail k)
    with Cons have "input w fd = Fail k # rest" by simp
    from read_fail [OF this, of data c] assms show ?thesis by simp
  qed
qed

theorem read_zero_count_returns_null_witness:
  "calls (fst (IO_read world0 0 [9] 2)) = calls world0 @ [Sys_read 0 [(0, 2)] SUCCESS []] \<and>
   snd (IO_read world0 0 [9] 2) = ([9], None)"
proof -
  have i: "input world0 0 = []" by (simp add: world0_def)
  have h: "calls (fst (IO_read world0 0 [9] 2)) = calls world0 @ [Sys_read 0 [(0, 2)] SUCCESS []]"
    using read_eof(1) [OF i, of "[9]" 2] by (simp add: world0_def)
  from read_zero_count_returns_null [OF h] h show ?thesis by simp
qed

text \<open>
  C6. \<^verbatim>\<open>IO.read\<close> requests one buffer of the chunk size (then the vector list and the
  count buffer), makes exactly one host read, over that buffer, and when the read reports
  a positive number of bytes it appends exactly these bytes, in order, to the target
  array and returns the array. The data buffer lies in the 32-bit address space.
\<close>

theorem read_one_call_appends_bytes:
  assumes "brk w < 2 ^ 32"
  shows "allocs (fst (IO_read w fd data c)) =
           allocs w @ [(brk w, unat c), (brk w + max (unat c) 1, 8),
                       (brk w + max (unat c) 1 + 8, 4)] \<and>
         (\<exists>st bs. calls (fst (IO_read w fd data c)) =
                    calls w @ [Sys_read fd [(brk w, unat c)] st bs] \<and>
                  length bs \<le> unat c \<and>
                  (bs \<noteq> [] \<longrightarrow>
                     snd (IO_read w fd data c) = (data @ bs, Some (data @ bs))))"
proof -
  have p: "unat (word_of_nat (brk w) :: u32) = brk w"
    using assms by (rule unat_of_nat_u32)
  have "\<exists>st bs. calls (fst (IO_read w fd data c)) =
                    calls w @ [Sys_read fd [(brk w, unat c)] st bs] \<and>
                  length bs \<le> unat c \<and>
                  (bs \<noteq> [] \<longrightarrow>
                     snd (IO_read w fd data c) = (data @ bs, Some (data @ bs)))"
  proof (cases "input w fd")
    case Nil
    from read_eof(1) [OF Nil, of data c] show ?thesis by (simp add: p)
  next
    case (Cons ev rest)
    show ?thesis
    proof (cases ev)
      case (Chunk bs)
      with Cons have i: "input w fd = Chunk bs # rest" by simp
      from read_chunk(1) [OF i, of data c] read_chunk(3) [OF i assms, of c data]
      show ?thesis by (simp add: p)
    next
      case (Fail k)
      with Cons have "input w fd = Fail k # rest" by simp
      from read_fail [OF this, of data c] show ?thesis by (simp add: p)
    qed
  qed
  then show ?thesis by (simp add: read_allocs)
qed

theorem read_one_call_appends_bytes_witness:
  "brk (world0\<lparr>input := (\<lambda>_. [Chunk [1, 2, 3]])\<rparr>) < 2 ^ 32 \<and>
   snd (IO_read (world0\<lparr>input := (\<lambda>_. [Chunk [1, 2, 3]])\<rparr>) 0 [9] 2) =
     ([9, 1, 2], Some [9, 1, 2])"
proof -
  define W where "W = world0\<lparr>input := (\<lambda>_. [Chunk [1, 2, 3]])\<rparr>"
  have b: "brk W < 2 ^ 32" by (simp add: W_def world0_def)
  have i: "input W 0 = Chunk [1, 2, 3] # []" by (simp add: W_def)
  have c: "calls (fst (IO_read W 0 [9] 2)) = calls W @ [Sys_read 0 [(0, 2)] SUCCESS [1, 2]]"
    using read_chunk(1) [OF i, of "[9]" 2] by (simp add: W_def world0_def)
  from read_one_call_appends_bytes [OF b, of 0 "[9]" 2] c
  have "snd (IO_read W 0 [9] 2) = ([9, 1, 2], Some [9, 1, 2])" by auto
  with b show ?thesis by (simp add: W_def)
qed

text \<open>
  C7. For a string \<open>s\<close> that the encoder covers: if the bytes of a stream are what
  \<^verbatim>\<open>IO.writeString\<close> sent for \<open>s\<close>, then \<^verbatim>\<open>IO.readString\<close> on that stream returns \<open>s\<close>.
  The reads succeed and deliver the bytes in pieces of any non-zero sizes; the buffers of
  both calls lie in the 32-bit address space.
\<close>

theorem writeString_readString_roundtrip:
  assumes "well_formed s"
    and "brk w0 + length (utf8 s) < 2 ^ 32"
    and "emitted (IO_writeString w0 d s False) d = emitted w0 d @ concat chunks"
    and "input w fd = map Chunk chunks" and "[] \<notin> set chunks"
    and "brk w < 2 ^ 32"
  shows "snd (IO_readString w fd c) = Some s"
proof -
  have "emitted (IO_writeString w0 d s False) d = emitted w0 d @ utf8 s"
    using emitted_write [OF writeString_calls [OF assms(2), of d], of d] by simp
  with assms(3) have content: "concat chunks = utf8 s" by simp
  have "snd (IO_readAll w fd [] 4096) = ([] @ concat chunks, Some ([] @ concat chunks))"
    using assms(4-6) by (intro readAll_chunks [where tail = "[]"]) simp_all
  then have "fst (snd (IO_readAll w fd [] 4096)) = utf8 s"
    by (simp add: content)
  then show ?thesis
    using assms(1) by (simp add: readString_result utf8_roundtrip)
qed

theorem writeString_readString_roundtrip_witness:
  "well_formed [104, 105, 0x20AC] \<and>
   brk world0 + length (utf8 [104, 105, 0x20AC]) < 2 ^ 32 \<and>
   emitted (IO_writeString world0 1 [104, 105, 0x20AC] False) 1 =
     emitted world0 1 @ concat [[104, 105], [226, 130, 172]] \<and>
   [] \<notin> set [[104, 105], [226, 130, 172 :: u8]] \<and>
   snd (IO_readString (world0\<lparr>input := (\<lambda>_. [Chunk [104, 105], Chunk [226, 130, 172]])\<rparr>)
          0 4096) = Some [104, 105, 0x20AC]"
proof -
  define s :: ustring where "s = [104, 105, 0x20AC]"
  define W where "W = world0\<lparr>input := (\<lambda>_. [Chunk [104, 105], Chunk [226, 130, 172]])\<rparr>"
  have u: "utf8 s = [104, 105, 226, 130, 172]"
    by (simp add: s_def utf8_char_def)
  have wf: "well_formed s" by (simp add: s_def well_formed_def)
  have f: "brk world0 + length (utf8 s) < 2 ^ 32" by (simp add: u world0_def)
  have e: "emitted (IO_writeString world0 1 s False) 1 =
             emitted world0 1 @ concat [[104, 105], [226, 130, 172]]"
    using emitted_write [OF writeString_calls [OF f, of 1], of 1] by (simp add: u)
  have i: "input W 0 = map Chunk [[104, 105], [226, 130, 172]]" by (simp add: W_def)
  have n: "[] \<notin> set [[104, 105], [226, 130, 172 :: u8]]" by simp
  have b: "brk W < 2 ^ 32" by (simp add: W_def world0_def)
  from writeString_readString_roundtrip [OF wf f e i n b, of 4096] wf f e n
  show ?thesis by (simp add: s_def W_def)
qed

end
